theory Spec2Isabelle
  imports Main "HOL-Library.Sublist"
begin

section \<open>ahs: hostnames for EC2 instances (shallow embedding of ahs.go)\<close>

text \<open>
  Go strings are byte sequences; they are modelled as \<open>string\<close> (a list of 8-bit
  characters). Go's \<open>int\<close> is modelled as \<open>int\<close>; where the 64-bit range matters
  (\<open>strconv.Atoi\<close>) the range check is written out, and where it does not (the bounds of
  the slices) that is proved.
\<close>

subsection \<open>Run-time panics and slices\<close>

text \<open>
  A Go function either returns its results or panics. \<open>Panic\<close> is the run-time
  panic (here always "slice bounds out of range"); \<open>Return\<close> carries the results.
\<close>

datatype 'a exec = Panic | Return 'a

fun exec_bind :: "'a exec \<Rightarrow> ('a \<Rightarrow> 'b exec) \<Rightarrow> 'b exec" where
  "exec_bind Panic f = Panic"
| "exec_bind (Return x) f = f x"

text \<open>
  \<open>s[lo:]\<close> and \<open>s[lo:hi]\<close>: Go requires \<open>0 \<le> lo \<le> hi \<le> len(s)\<close> and panics
  otherwise.
\<close>

definition slice_from :: "string \<Rightarrow> int \<Rightarrow> string exec" where
  "slice_from s lo =
     (if lo < 0 then Panic
      else if int (length s) < lo then Panic
      else Return (drop (nat lo) s))"

definition slice :: "string \<Rightarrow> int \<Rightarrow> int \<Rightarrow> string exec" where
  "slice s lo hi =
     (if lo < 0 then Panic
      else if hi < lo then Panic
      else if int (length s) < hi then Panic
      else Return (take (nat hi - nat lo) (drop (nat lo) s)))"

text \<open>The value a 64-bit \<open>int\<close> holds after an addition or subtraction whose exact result is \<open>x\<close>.\<close>

definition int64 :: "int \<Rightarrow> int" where
  "int64 x = (x + 2 ^ 63) mod 2 ^ 64 - 2 ^ 63"

subsection \<open>Errors\<close>

text \<open>
  One constructor per place where ahs.go builds an error, one for the errors of
  \<open>strconv.Atoi\<close>, and \<open>Remote\<close> for an error handed back by the AWS SDK or the
  operating system (its message is opaque to the program).
\<close>

datatype num_error = ErrSyntax | ErrRange

datatype error =
    Remote string
  | NoCurrentUser
  | NotRoot
  | MetadataUnavailable
  | InvalidAvailabilityZone string
  | InvalidRegion string
  | MissingInputTag string
  | UnexpectedTagCount nat
  | NumError string num_error
  | NotImplemented string

subsection \<open>Regular expressions (package regexp)\<close>

text \<open>
  Go's \<open>regexp\<close> package is a library, not code of the repository. The three patterns of
  ahs.go use character classes, concatenation, \<open>+\<close>, \<open>*\<close>, \<open>{2}\<close>, one capture group and
  a final \<open>$\<close>. A pattern is embedded as its syntax tree; matching is by derivatives
  and is proved below to decide membership in the pattern's language. All the characters
  the patterns name are ASCII, and an ASCII byte never occurs inside the UTF-8 encoding
  of another character, so matching bytes and matching runes agree on them.
\<close>

type_synonym char_class = "(char \<times> char) list"

definition in_class :: "char_class \<Rightarrow> char \<Rightarrow> bool" where
  "in_class cls c =
     list_ex (\<lambda>(lo, hi). (of_char lo :: nat) \<le> of_char c \<and> (of_char c :: nat) \<le> of_char hi) cls"

datatype regex = Fail | Empty | Class char_class | Cat regex regex | Or regex regex | Rep regex

definition lang_cat :: "string set \<Rightarrow> string set \<Rightarrow> string set" where
  "lang_cat A B = {u @ v | u v. u \<in> A \<and> v \<in> B}"

inductive_set lang_rep :: "string set \<Rightarrow> string set" for A :: "string set" where
  rep_nil: "[] \<in> lang_rep A"
| rep_more: "u \<in> A \<Longrightarrow> v \<in> lang_rep A \<Longrightarrow> u @ v \<in> lang_rep A"

fun lang :: "regex \<Rightarrow> string set" where
  "lang Fail = {}"
| "lang Empty = {[]}"
| "lang (Class cls) = {[c] | c. in_class cls c}"
| "lang (Cat r s) = lang_cat (lang r) (lang s)"
| "lang (Or r s) = lang r \<union> lang s"
| "lang (Rep r) = lang_rep (lang r)"

fun nullable :: "regex \<Rightarrow> bool" where
  "nullable Fail = False"
| "nullable Empty = True"
| "nullable (Class cls) = False"
| "nullable (Cat r s) = (nullable r \<and> nullable s)"
| "nullable (Or r s) = (nullable r \<or> nullable s)"
| "nullable (Rep r) = True"

text \<open>Constructors that drop dead branches, so that derivatives stay small.\<close>

definition cat :: "regex \<Rightarrow> regex \<Rightarrow> regex" where
  "cat r s = (if r = Fail then Fail else if r = Empty then s else Cat r s)"

definition alt :: "regex \<Rightarrow> regex \<Rightarrow> regex" where
  "alt r s = (if r = Fail then s else if s = Fail then r else Or r s)"

fun deriv :: "char \<Rightarrow> regex \<Rightarrow> regex" where
  "deriv c Fail = Fail"
| "deriv c Empty = Fail"
| "deriv c (Class cls) = (if in_class cls c then Empty else Fail)"
| "deriv c (Cat r s) =
     (if nullable r then alt (cat (deriv c r) s) (deriv c s) else cat (deriv c r) s)"
| "deriv c (Or r s) = alt (deriv c r) (deriv c s)"
| "deriv c (Rep r) = cat (deriv c r) (Rep r)"

fun matches :: "regex \<Rightarrow> string \<Rightarrow> bool" where
  "matches r [] = nullable r"
| "matches r (c # cs) = matches (deriv c r) cs"

text \<open>The pieces of Go's pattern syntax that ahs.go uses.\<close>

definition lit :: "char \<Rightarrow> regex" where
  "lit c = Class [(c, c)]"

definition lower :: regex where \<comment> \<open>\<open>[a-z]\<close>\<close>
  "lower = Class [(CHR ''a'', CHR ''z'')]"

definition digit :: regex where \<comment> \<open>\<open>\d\<close>\<close>
  "digit = Class [(CHR ''0'', CHR ''9'')]"

definition dot :: regex where \<comment> \<open>\<open>.\<close>: any character but a newline\<close>
  "dot = Class [(CHR 0x00, CHR 0x09), (CHR 0x0B, CHR 0xFF)]"

definition any_char :: regex where
  "any_char = Class [(CHR 0x00, CHR 0xFF)]"

definition twice :: "regex \<Rightarrow> regex" where \<comment> \<open>\<open>r{2}\<close>\<close>
  "twice r = Cat r r"

definition plus :: "regex \<Rightarrow> regex" where \<comment> \<open>\<open>r+\<close>\<close>
  "plus r = Cat r (Rep r)"

text \<open>
  A compiled pattern: what stands before capture group 1, the group itself (\<open>Empty\<close>
  for a pattern without a group), and whether the pattern ends with \<open>$\<close>.
\<close>

record Regexp =
  before_group :: regex
  group1 :: regex
  end_of_text :: bool

text \<open>
  \<open>MatchString\<close> reports whether the string contains any match of the pattern: the
  match may start anywhere, and ends anywhere unless the pattern ends with \<open>$\<close>.
\<close>

definition MatchString :: "Regexp \<Rightarrow> string \<Rightarrow> bool" where
  "MatchString re s =
     matches (Cat (Rep any_char)
               (Cat (Cat (before_group re) (group1 re))
                    (if end_of_text re then Empty else Rep any_char))) s"

fun splits :: "string \<Rightarrow> (string \<times> string) list" where
  "splits [] = [([], [])]"
| "splits (c # cs) = ([], c # cs) # map (\<lambda>(u, v). (c # u, v)) (splits cs)"

text \<open>
  \<open>FindStringSubmatch(s)[1]\<close> for a pattern that ends with \<open>$\<close>: every text that group 1
  can hold in a match (the match starts anywhere and ends at the end of the string).
  \<open>regexp\<close> returns the group of the leftmost match; for the pattern of ahs.go there is
  at most one candidate (\<open>submatches_sequential\<close> below), so the choice does not matter.
\<close>

definition submatches :: "Regexp \<Rightarrow> string \<Rightarrow> string list" where
  "submatches re s =
     map snd (filter (\<lambda>(u, g). matches (Cat (Rep any_char) (before_group re)) u
                                  \<and> matches (group1 re) g) (splits s))"

subsection \<open>Numbers and strings (package strconv)\<close>

text \<open>
  \<open>strconv.Atoi\<close> reads an optional sign and decimal digits. It returns 0 and a syntax
  error when there is no digit or another character, and the nearest bound and a range
  error when the value does not fit \<open>int\<close>. \<open>int\<close> has 64 bits on the linux/amd64 and
  linux/arm64 builds of the Makefile, which are the ones modelled.
\<close>

definition is_digit :: "char \<Rightarrow> bool" where
  "is_digit c = in_class [(CHR ''0'', CHR ''9'')] c"

definition decimal :: "string \<Rightarrow> nat" where
  "decimal ds = foldl (\<lambda>n c. 10 * n + (of_char c - 48)) 0 ds"

definition maxInt :: int where
  "maxInt = 2 ^ 63 - 1"

definition minInt :: int where
  "minInt = - (2 ^ 63)"

definition Atoi :: "string \<Rightarrow> int \<times> error option" where
  "Atoi s =
     (let neg = (case s of [] \<Rightarrow> False | c # _ \<Rightarrow> c = CHR ''-'');
          ds = (case s of [] \<Rightarrow> [] | c # cs \<Rightarrow> if c = CHR ''+'' \<or> c = CHR ''-'' then cs else s)
      in if ds = [] then (0, Some (NumError s ErrSyntax))
         else if list_ex (\<lambda>c. \<not> is_digit c) ds then (0, Some (NumError s ErrSyntax))
         else if neg then
           (if 2 ^ 63 < int (decimal ds) then (minInt, Some (NumError s ErrRange))
            else (- int (decimal ds), None))
         else
           (if maxInt < int (decimal ds) then (maxInt, Some (NumError s ErrRange))
            else (int (decimal ds), None)))"

function digits_of :: "nat \<Rightarrow> string" where
  "digits_of n =
     (if n < 10 then [char_of (48 + n)] else digits_of (n div 10) @ [char_of (48 + n mod 10)])"
  by pat_completeness auto
termination
  by (relation "measure (\<lambda>n. n)") auto

definition Itoa :: "int \<Rightarrow> string" where
  "Itoa i = (if i < 0 then CHR ''-'' # digits_of (nat (- i)) else digits_of (nat i))"

subsection \<open>Backoff (package github.com/jpillora/backoff)\<close>

text \<open>
  Modelled from the spec: the backoff package is a dependency (go.mod) whose code is not
  among the sources. Section 4.1 of the spec: the duration grows exponentially from a
  minimum by a fixed factor, is capped at a maximum, and has no jitter; \<open>Reset\<close> restores
  the cursor to the minimum. Durations are in nanoseconds, as \<open>time.Duration\<close>.
\<close>

definition Millisecond :: int where
  "Millisecond = 1000000"

definition Second :: int where
  "Second = 1000000000"

record Backoff =
  attempt :: nat
  Factor :: int
  Jitter :: bool
  Min_dur :: int
  Max_dur :: int

definition ForAttempt :: "Backoff \<Rightarrow> nat \<Rightarrow> int" where
  "ForAttempt b n =
     (let d = Min_dur b * Factor b ^ n in if Max_dur b < d then Max_dur b else d)"

definition Duration :: "Backoff \<Rightarrow> int \<times> Backoff" where
  "Duration b = (ForAttempt b (attempt b), b\<lparr>attempt := Suc (attempt b)\<rparr>)"

definition Reset :: "Backoff \<Rightarrow> Backoff" where
  "Reset b = b\<lparr>attempt := 0\<rparr>"

subsection \<open>The remote services and the trace of a run\<close>

text \<open>
  The AWS SDK writes every field of a response as a pointer; the EC2 service fills the
  key and the value of every tag it returns, so they are modelled as strings.
\<close>

record Tag =
  Key :: string
  Value :: string

record Instance =
  InstanceId :: string
  Tags :: "Tag list"

record Reservation =
  Instances :: "Instance list"

type_synonym Filter = "string \<times> string list"

text \<open>
  What the program does to the outside, in order. The first five are reads (and the
  pause between two attempts); \<open>Sethostname\<close> and \<open>EC2CreateTags\<close> are the writes.
\<close>

datatype event =
    MDSAvailable
  | MDSGetMetadata string
  | EC2DescribeInstances "Filter list"
  | EC2DescribeTags "Filter list"
  | Sleep int
  | Sethostname string
  | EC2CreateTags string Tag


text \<open>
  The outside world answers each call. The EC2 answers may change from one request to
  the next (the tag store is eventually consistent, which is why the program retries),
  so they depend on the number of EC2 requests made before.
\<close>

record Env =
  logger_configure :: "error option"
  user_current :: "string \<times> error option"
  mds_available :: bool
  mds_get_metadata :: "string \<Rightarrow> string \<times> error option"
  ec2_describe_instances :: "nat \<Rightarrow> Filter list \<Rightarrow> Reservation list \<times> error option"
  ec2_describe_tags :: "nat \<Rightarrow> Filter list \<Rightarrow> Tag list \<times> error option"
  ec2_create_tags :: "nat \<Rightarrow> string \<Rightarrow> Tag \<Rightarrow> error option"
  os_sethostname :: "string \<Rightarrow> error option"

record World =
  requests :: nat
  trace :: "event list"

definition emit :: "event \<Rightarrow> World \<Rightarrow> World" where
  "emit e w = w\<lparr>trace := trace w @ [e]\<rparr>"

definition ec2_request :: "event \<Rightarrow> World \<Rightarrow> World" where
  "ec2_request e w = w\<lparr>requests := Suc (requests w), trace := trace w @ [e]\<rparr>"

subsection \<open>Identity (ahs.go, lines 180-228)\<close>

definition getAWSMDSClient :: "Env \<Rightarrow> World \<Rightarrow> error option \<times> World" where
  "getAWSMDSClient env w =
     (if \<not> mds_available env then (Some MetadataUnavailable, emit MDSAvailable w)
      else (None, emit MDSAvailable w))"

text \<open>\<^verbatim>\<open>regexp.MustCompile("[a-z]{2}-[a-z]+-\\d")\<close>\<close>

definition region_re :: Regexp where
  "region_re =
     \<lparr>before_group =
        Cat (twice lower) (Cat (lit CHR ''-'') (Cat (plus lower) (Cat (lit CHR ''-'') digit))),
      group1 = Empty, end_of_text = False\<rparr>"

definition getAWSEC2Client :: "string \<Rightarrow> error option" where
  "getAWSEC2Client region =
     (if \<not> MatchString region_re region then Some (InvalidRegion region) else None)"

definition getInstanceAZ :: "Env \<Rightarrow> World \<Rightarrow> (string \<times> error option) \<times> World" where
  "getInstanceAZ env w =
     (mds_get_metadata env ''placement/availability-zone'',
      emit (MDSGetMetadata ''placement/availability-zone'') w)"

text \<open>\<^verbatim>\<open>regexp.MustCompile("[a-z]{2}-[a-z]+-\\d[a-z]")\<close>\<close>

definition az_re :: Regexp where
  "az_re =
     \<lparr>before_group =
        Cat (twice lower)
          (Cat (lit CHR ''-'') (Cat (plus lower) (Cat (lit CHR ''-'') (Cat digit lower)))),
      group1 = Empty, end_of_text = False\<rparr>"

text \<open>
  \<open>az[:len(az)-1]\<close> cannot panic: a string that contains a match is not empty.
\<close>

definition computeRegionFromAZ :: "string \<Rightarrow> string \<times> error option" where
  "computeRegionFromAZ az =
     (if \<not> MatchString az_re az then ('''', Some (InvalidAvailabilityZone az))
      else (take (length az - 1) az, None))"

definition getInstanceID :: "Env \<Rightarrow> World \<Rightarrow> (string \<times> error option) \<times> World" where
  "getInstanceID env w =
     (mds_get_metadata env ''instance-id'', emit (MDSGetMetadata ''instance-id'') w)"

subsection \<open>Tags (ahs.go, lines 230-293)\<close>

text \<open>
  The three nested loops over reservations, instances and tags visit the tags in the
  order of this list.
\<close>

definition all_tags :: "Reservation list \<Rightarrow> Tag list" where
  "all_tags rs = concat (map Tags (concat (map Instances rs)))"

definition getBaseFromInputTag ::
    "Env \<Rightarrow> string \<Rightarrow> string \<Rightarrow> World \<Rightarrow> (string \<times> error option) \<times> World" where
  "getBaseFromInputTag env inputTag instanceID w =
     (let filters = [(''instance-id'', [instanceID])];
          (instances, err) = ec2_describe_instances env (requests w) filters;
          w' = ec2_request (EC2DescribeInstances filters) w
      in if err \<noteq> None then (('''', err), w')
         else (case find (\<lambda>t. Key t = inputTag) (all_tags instances) of
                 Some t \<Rightarrow> ((Value t, None), w')
               | None \<Rightarrow> (('''', Some (MissingInputTag inputTag)), w')))"

definition setSystemHostname :: "Env \<Rightarrow> string \<Rightarrow> World \<Rightarrow> error option \<times> World" where
  "setSystemHostname env hostname w = (os_sethostname env hostname, emit (Sethostname hostname) w)"

definition setTagValue ::
    "Env \<Rightarrow> string \<Rightarrow> string \<Rightarrow> string \<Rightarrow> World \<Rightarrow> error option \<times> World" where
  "setTagValue env instanceID tag val w =
     (ec2_create_tags env (requests w) instanceID \<lparr>Key = tag, Value = val\<rparr>,
      ec2_request (EC2CreateTags instanceID \<lparr>Key = tag, Value = val\<rparr>) w)"

subsection \<open>Instance-ID strategy (ahs.go, lines 295-307)\<close>

text \<open>
  \<^verbatim>\<open>
  if base[len(base)-length:] == instanceID[2:2+length] { return base, nil }
  hostname := base + separator + instanceID[2:2+length]
  return hostname, nil
  \<close>
  The operands of \<open>==\<close> are evaluated left to right; each slice expression may panic.
  The differences \<open>len(base)-length\<close> and \<open>2+length\<close> are taken as exact integers: where
  the 64-bit result would wrap around, the exact result is beyond the length and the
  wrapped one is negative, so both panic (\<open>slices_do_not_depend_on_wrap_around\<close> below).
\<close>

definition computeHostnameWithInstanceID ::
    "string \<Rightarrow> string \<Rightarrow> string \<Rightarrow> int \<Rightarrow> (string \<times> error option) exec" where
  "computeHostnameWithInstanceID base instanceID separator len =
     exec_bind (slice_from base (int (length base) - len)) (\<lambda>tail.
     exec_bind (slice instanceID 2 (2 + len)) (\<lambda>suffix.
       if tail = suffix then Return (base, None)
       else exec_bind (slice instanceID 2 (2 + len)) (\<lambda>suffix'.
         Return (base @ separator @ suffix', None))))"

subsection \<open>Sequential strategy (ahs.go, lines 309-415)\<close>

text \<open>\<^verbatim>\<open>regexp.MustCompile(".*-(\\d+)$")\<close>\<close>

definition sequential_re :: Regexp where
  "sequential_re =
     \<lparr>before_group = Cat (Rep dot) (lit CHR ''-''), group1 = plus digit, end_of_text = True\<rparr>"

definition findInstanceGroupTagValue ::
    "Env \<Rightarrow> string \<Rightarrow> string \<Rightarrow> World \<Rightarrow> (string \<times> error option) \<times> World" where
  "findInstanceGroupTagValue env groupTag instanceID w =
     (let filters = [(''resource-type'', [''instance'']), (''resource-id'', [instanceID]),
                     (''key'', [groupTag])];
          (tags, err) = ec2_describe_tags env (requests w) filters;
          w' = ec2_request (EC2DescribeTags filters) w
      in if err \<noteq> None then (('''', err), w')
         else if length tags \<noteq> 1 then (('''', Some (UnexpectedTagCount (length tags))), w')
         else ((Value (tags ! 0), None), w'))"

text \<open>
  Lines 390-405: the sequential IDs of the peers, in the order of the answer; the first
  value that \<open>Atoi\<close> rejects ends the function with its error.
\<close>

fun collect_used :: "string \<Rightarrow> Tag list \<Rightarrow> int list \<Rightarrow> int list \<times> error option" where
  "collect_used sequentialIDTag [] used = (used, None)"
| "collect_used sequentialIDTag (t # ts) used =
     (if Key t = sequentialIDTag then
        (let (v, err) = Atoi (Value t) in
         if err \<noteq> None then (used, err)
         else collect_used sequentialIDTag ts (used @ [v]))
      else collect_used sequentialIDTag ts used)"

text \<open>
  Lines 408-414:
  \<^verbatim>\<open>
  for i := 0; i < len(used); i++ { if used[i] != i+1 { return i + 1, nil } }
  return len(used) + 1, nil
  \<close>
\<close>

function first_gap :: "int list \<Rightarrow> nat \<Rightarrow> int" where
  "first_gap used i =
     (if i < length used then
        (if used ! i \<noteq> int i + 1 then int i + 1 else first_gap used (Suc i))
      else int (length used) + 1)"
  by pat_completeness auto
termination
  by (relation "measure (\<lambda>(used, i). length used - i)") auto

definition findAvailableNumberInInstanceGroup ::
    "Env \<Rightarrow> string \<Rightarrow> string \<Rightarrow> string \<Rightarrow> World \<Rightarrow> (int \<times> error option) \<times> World" where
  "findAvailableNumberInInstanceGroup env instanceGroup groupTag sequentialIDTag w =
     (let filters = [(''tag:'' @ groupTag, [instanceGroup])];
          (instances, err) = ec2_describe_instances env (requests w) filters;
          w' = ec2_request (EC2DescribeInstances filters) w
      in if err \<noteq> None then ((- 1, err), w')
         else (case collect_used sequentialIDTag (all_tags instances) [] of
                 (used, Some e) \<Rightarrow> ((- 1, Some e), w')
               | (used, None) \<Rightarrow> ((first_gap (sort used) 0, None), w')))"

text \<open>
  Lines 312-318: \<open>re.FindStringSubmatch(base)[1]\<close> is read after \<open>re.MatchString(base)\<close>
  has succeeded; on a string without a match the index would panic.
\<close>

definition computeSequentialHostname ::
    "Env \<Rightarrow> string \<Rightarrow> string \<Rightarrow> string \<Rightarrow> string \<Rightarrow> string \<Rightarrow> World
       \<Rightarrow> (string \<times> int \<times> error option) exec \<times> World" where
  "computeSequentialHostname env base instanceID separator groupTag sequentialIDTag w =
     (if MatchString sequential_re base then
        (case submatches sequential_re base of
           [] \<Rightarrow> (Panic, w)
         | g # _ \<Rightarrow> (let (sequentialID, err) = Atoi g in (Return (base, sequentialID, err), w)))
      else
        (let ((instanceGroup, err), w1) = findInstanceGroupTagValue env groupTag instanceID w in
         if err \<noteq> None then (Return ('''', - 1, err), w1)
         else
           (let ((sequentialID, err), w2) =
                  findAvailableNumberInInstanceGroup env instanceGroup groupTag sequentialIDTag w1
            in if err \<noteq> None then (Return ('''', - 1, err), w2)
               else (Return (base @ separator @ Itoa sequentialID, sequentialID, None), w2))))"

subsection \<open>The command (ahs.go, lines 50-178)\<close>

record Params =
  Backoff :: Backoff
  InputTag :: string
  OutputTag :: string
  Separator :: string

record Values =
  AZ :: string
  Base :: string
  Hostname :: string
  InstanceID :: string
  Region :: string
  SequentialID :: int

text \<open>What \<open>run\<close> reads from its \<open>cli.Context\<close>: the command's name and the flags.\<close>

record Context =
  command_name :: string
  flag_dry_run :: bool
  flag_input_tag :: string
  flag_output_tag :: string
  flag_separator :: string
  flag_length :: int
  flag_group_tag :: string
  flag_sequential_id_tag :: string

text \<open>
  How \<open>run\<close> ends: it returns \<open>exit(err)\<close>, or it panics. \<open>Retrying\<close> stands for a run
  that is still inside the retry loop after the number of attempts it was given.
\<close>

datatype outcome = Exit "error option" | Panicked | Retrying

text \<open>Lines 94-121. \<open>None\<close> as first component: \<open>run\<close> goes on.\<close>

definition identify :: "Env \<Rightarrow> Values \<Rightarrow> World \<Rightarrow> outcome option \<times> Values \<times> World" where
  "identify env v w =
     (let (err, w1) = getAWSMDSClient env w in
      if err \<noteq> None then (Some (Exit err), v, w1)
      else
        (let ((az, err), w2) = getInstanceAZ env w1; v1 = v\<lparr>AZ := az\<rparr> in
         if err \<noteq> None then (Some (Exit err), v1, w2)
         else
           (let (region, err) = computeRegionFromAZ (AZ v1); v2 = v1\<lparr>Region := region\<rparr> in
            if err \<noteq> None then (Some (Exit err), v2, w2)
            else
              (let err = getAWSEC2Client (Region v2) in
               if err \<noteq> None then (Some (Exit err), v2, w2)
               else
                 (let ((iid, err), w3) = getInstanceID env w2; v3 = v2\<lparr>InstanceID := iid\<rparr> in
                  if err \<noteq> None then (Some (Exit err), v3, w3)
                  else (None, v3, w3))))))"

text \<open>
  Lines 124-137, the retry loop, with the number of attempts it may still make:
  \<^verbatim>\<open>
  for {
    v.Base, err = c.getBaseFromInputTag(p.InputTag, v.InstanceID)
    if err != nil {
      d := p.Backoff.Duration()
      if d == 60*time.Second { return exit(cli.NewExitError(analyzeEC2APIErrors(err), 1)) }
      time.Sleep(d)
    } else { p.Backoff.Reset(); break }
  }
  \<close>
\<close>

fun fetchBase ::
    "nat \<Rightarrow> Env \<Rightarrow> Params \<Rightarrow> Values \<Rightarrow> World \<Rightarrow> outcome option \<times> Params \<times> Values \<times> World" where
  "fetchBase 0 env p v w = (Some Retrying, p, v, w)"
| "fetchBase (Suc n) env p v w =
     (let ((base, err), w1) = getBaseFromInputTag env (InputTag p) (InstanceID v) w;
          v1 = v\<lparr>Base := base\<rparr>
      in if err \<noteq> None then
           (let (d, b) = Duration (Backoff p); p1 = p\<lparr>Backoff := b\<rparr> in
            if d = 60 * Second then (Some (Exit err), p1, v1, w1)
            else fetchBase n env p1 v1 (emit (Sleep d) w1))
         else (None, p\<lparr>Backoff := Reset (Backoff p)\<rparr>, v1, w1))"

text \<open>Lines 139-150: the strategy that the command names.\<close>

definition compute ::
    "Env \<Rightarrow> Context \<Rightarrow> Params \<Rightarrow> Values \<Rightarrow> World \<Rightarrow> outcome option \<times> Values \<times> World" where
  "compute env ctx p v w =
     (if command_name ctx = ''instance-id'' then
        (case computeHostnameWithInstanceID (Base v) (InstanceID v) (Separator p) (flag_length ctx) of
           Panic \<Rightarrow> (Some Panicked, v, w)
         | Return (hostname, err) \<Rightarrow>
             (if err \<noteq> None then (Some (Exit err), v\<lparr>Hostname := hostname\<rparr>, w)
              else (None, v\<lparr>Hostname := hostname\<rparr>, w)))
      else if command_name ctx = ''sequential'' then
        (case computeSequentialHostname env (Base v) (InstanceID v) (Separator p)
                (flag_group_tag ctx) (flag_sequential_id_tag ctx) w of
           (Panic, w1) \<Rightarrow> (Some Panicked, v, w1)
         | (Return (hostname, sequentialID, err), w1) \<Rightarrow>
             (if err \<noteq> None
              then (Some (Exit err), v\<lparr>Hostname := hostname, SequentialID := sequentialID\<rparr>, w1)
              else (None, v\<lparr>Hostname := hostname, SequentialID := sequentialID\<rparr>, w1)))
      else (Some (Exit (Some (NotImplemented (command_name ctx)))), v, w))"

text \<open>Lines 152-177: the writes, unless the run is a dry run.\<close>

definition apply_changes ::
    "Env \<Rightarrow> Context \<Rightarrow> Params \<Rightarrow> Values \<Rightarrow> World \<Rightarrow> outcome \<times> Values \<times> World" where
  "apply_changes env ctx p v w =
     (if \<not> flag_dry_run ctx then
        (let (err, w1) = setSystemHostname env (Hostname v) w in
         if err \<noteq> None then (Exit err, v, w1)
         else
           (let (err, w2) = setTagValue env (InstanceID v) (OutputTag p) (Hostname v) w1 in
            if err \<noteq> None then (Exit err, v, w2)
            else if command_name ctx = ''sequential'' then
              (let (err, w3) = setTagValue env (InstanceID v) (flag_sequential_id_tag ctx)
                                 (Itoa (SequentialID v)) w2
               in if err \<noteq> None then (Exit err, v, w3) else (Exit None, v, w3))
            else (Exit None, v, w2)))
      else (Exit None, v, w))"

definition initial_params :: "Context \<Rightarrow> Params" where
  "initial_params ctx =
     \<lparr>Backoff = \<lparr>attempt = 0, Factor = 2, Jitter = False,
                  Min_dur = 100 * Millisecond, Max_dur = 120 * Second\<rparr>,
      InputTag = flag_input_tag ctx, OutputTag = flag_output_tag ctx, Separator = flag_separator ctx\<rparr>"

definition initial_values :: Values where
  "initial_values =
     \<lparr>AZ = '''', Base = '''', Hostname = '''', InstanceID = '''', Region = '''', SequentialID = - 1\<rparr>"

text \<open>The world when \<open>run\<close> starts: nothing requested, nothing done.\<close>

definition world0 :: World where
  "world0 = \<lparr>requests = 0, trace = []\<rparr>"

text \<open>Lines 94-150: everything \<open>run\<close> does before it changes anything.\<close>

definition computation ::
    "nat \<Rightarrow> Env \<Rightarrow> Context \<Rightarrow> World \<Rightarrow> outcome option \<times> Params \<times> Values \<times> World" where
  "computation attempts env ctx w =
     (case identify env initial_values w of
        (Some out, v1, w1) \<Rightarrow> (Some out, initial_params ctx, v1, w1)
      | (None, v1, w1) \<Rightarrow>
          (case fetchBase attempts env (initial_params ctx) v1 w1 of
             (Some out, p2, v2, w2) \<Rightarrow> (Some out, p2, v2, w2)
           | (None, p2, v2, w2) \<Rightarrow>
               (case compute env ctx p2 v2 w2 of (out, v3, w3) \<Rightarrow> (out, p2, v3, w3))))"

text \<open>
  \<open>run\<close>, given the number of attempts the retry loop may make. Lines 53-66: the logger
  and the user; then the computation; then the changes.
\<close>

definition run :: "nat \<Rightarrow> Env \<Rightarrow> Context \<Rightarrow> outcome \<times> Values \<times> World" where
  "run attempts env ctx =
     (if logger_configure env \<noteq> None then (Panicked, initial_values, world0)
      else if snd (user_current env) \<noteq> None
        then (Exit (Some NoCurrentUser), initial_values, world0)
      else if fst (user_current env) \<noteq> ''root'' then (Exit (Some NotRoot), initial_values, world0)
      else
        (case computation attempts env ctx world0 of
           (Some out, p, v, w) \<Rightarrow> (out, v, w)
         | (None, p, v, w) \<Rightarrow> apply_changes env ctx p v w))"

subsection \<open>Reads and writes of a run\<close>



subsection \<open>The spec's words, for comparison with the code\<close>

definition is_lower :: "char \<Rightarrow> bool" where
  "is_lower c = in_class [(CHR ''a'', CHR ''z'')] c"

text \<open>
  Section 4.2 of the spec: an availability zone has the shape
  \<open><2 lowercase letters>-<word>-<digit><letter>\<close>. The word is read as the code's pattern
  reads it: one lowercase letter or more.
\<close>

definition az_shape :: "string \<Rightarrow> bool" where
  "az_shape s =
     (\<exists>a b w d l. s = [a, b] @ ''-'' @ w @ ''-'' @ [d, l]
        \<and> is_lower a \<and> is_lower b \<and> w \<noteq> [] \<and> list_all is_lower w \<and> is_digit d \<and> is_lower l)"

subsection \<open>A concrete world, for examples\<close>

text \<open>
  An instance "i-0123456789abcdef0" in eu-west-1a run by root, whose every request
  succeeds: \<open>DescribeInstances\<close> answers with the given reservations and \<open>DescribeTags\<close>
  with the given tags.
\<close>

definition example_env :: "Reservation list \<Rightarrow> Tag list \<Rightarrow> Env" where
  "example_env rs ts =
     \<lparr>logger_configure = None,
      user_current = (''root'', None),
      mds_available = True,
      mds_get_metadata = (\<lambda>path. if path = ''instance-id'' then (''i-0123456789abcdef0'', None)
                                  else (''eu-west-1a'', None)),
      ec2_describe_instances = (\<lambda>n filters. (rs, None)),
      ec2_describe_tags = (\<lambda>n filters. (ts, None)),
      ec2_create_tags = (\<lambda>n resource t. None),
      os_sethostname = (\<lambda>h. None)\<rparr>"

definition peer :: "string \<Rightarrow> (string \<times> string) list \<Rightarrow> Instance" where
  "peer iid kvs = \<lparr>InstanceId = iid, Tags = map (\<lambda>(k, v). \<lparr>Key = k, Value = v\<rparr>) kvs\<rparr>"

section \<open>Properties\<close>

subsection \<open>The matcher decides the language of a pattern\<close>

lemma lang_cat_iff: "w \<in> lang_cat A B \<longleftrightarrow> (\<exists>u v. w = u @ v \<and> u \<in> A \<and> v \<in> B)"
  by (auto simp: lang_cat_def)

lemma nil_in_lang_cat: "[] \<in> lang_cat A B \<longleftrightarrow> [] \<in> A \<and> [] \<in> B"
  by (auto simp: lang_cat_def)

lemma nullable_iff: "nullable r \<longleftrightarrow> [] \<in> lang r"
  by (induction r) (auto simp: nil_in_lang_cat intro: lang_rep.rep_nil)

lemma lang_cat_smart: "lang (cat r s) = lang_cat (lang r) (lang s)"
  by (auto simp: cat_def lang_cat_def)

lemma lang_alt_smart: "lang (alt r s) = lang r \<union> lang s"
  by (auto simp: alt_def)

lemma cons_in_lang_cat:
  "c # w \<in> lang_cat A B \<longleftrightarrow>
     (\<exists>u v. w = u @ v \<and> c # u \<in> A \<and> v \<in> B) \<or> ([] \<in> A \<and> c # w \<in> B)"
  by (auto simp: lang_cat_def Cons_eq_append_conv append_eq_Cons_conv)

lemma cons_in_lang_rep_D:
  assumes "x \<in> lang_rep A" and "x = c # w"
  shows "\<exists>u v. w = u @ v \<and> c # u \<in> A \<and> v \<in> lang_rep A"
  using assms
proof (induction rule: lang_rep.induct)
  case rep_nil
  then show ?case by simp
next
  case (rep_more u v)
  show ?case
  proof (cases u)
    case Nil
    with rep_more show ?thesis by simp
  next
    case (Cons a u')
    with rep_more show ?thesis by auto
  qed
qed

lemma cons_in_lang_rep:
  "c # w \<in> lang_rep A \<longleftrightarrow> (\<exists>u v. w = u @ v \<and> c # u \<in> A \<and> v \<in> lang_rep A)"
proof
  assume "c # w \<in> lang_rep A"
  then show "\<exists>u v. w = u @ v \<and> c # u \<in> A \<and> v \<in> lang_rep A"
    by (rule cons_in_lang_rep_D) simp
next
  assume "\<exists>u v. w = u @ v \<and> c # u \<in> A \<and> v \<in> lang_rep A"
  then obtain u v where "w = u @ v" "c # u \<in> A" "v \<in> lang_rep A" by blast
  then show "c # w \<in> lang_rep A"
    using lang_rep.rep_more [of "c # u" A v] by simp
qed

lemma lang_deriv: "w \<in> lang (deriv c r) \<longleftrightarrow> c # w \<in> lang r"
proof (induction r arbitrary: w)
  case (Cat r s)
  have "w \<in> lang (deriv c (Cat r s)) \<longleftrightarrow>
          w \<in> lang_cat (lang (deriv c r)) (lang s) \<or> (nullable r \<and> w \<in> lang (deriv c s))"
    by (simp add: lang_alt_smart lang_cat_smart)
  also have "\<dots> \<longleftrightarrow> (\<exists>u v. w = u @ v \<and> c # u \<in> lang r \<and> v \<in> lang s)
                      \<or> ([] \<in> lang r \<and> c # w \<in> lang s)"
    by (simp add: lang_cat_iff Cat.IH nullable_iff)
  also have "\<dots> \<longleftrightarrow> c # w \<in> lang (Cat r s)"
    by (simp add: cons_in_lang_cat)
  finally show ?case .
next
  case (Rep r)
  have "w \<in> lang (deriv c (Rep r)) \<longleftrightarrow> w \<in> lang_cat (lang (deriv c r)) (lang_rep (lang r))"
    by (simp add: lang_cat_smart)
  also have "\<dots> \<longleftrightarrow> (\<exists>u v. w = u @ v \<and> c # u \<in> lang r \<and> v \<in> lang_rep (lang r))"
    by (simp add: lang_cat_iff Rep.IH)
  also have "\<dots> \<longleftrightarrow> c # w \<in> lang (Rep r)"
    by (simp add: cons_in_lang_rep)
  finally show ?case .
qed (auto simp: lang_alt_smart)

lemma matches_iff: "matches r s \<longleftrightarrow> s \<in> lang r"
  by (induction s arbitrary: r) (simp_all add: nullable_iff lang_deriv)


lemma of_char_le_255: "(of_char c :: nat) \<le> 255"
proof -
  have "(of_char c :: nat) mod 256 < 256" by simp
  then have "(of_char c :: nat) < 256" unfolding of_char_mod_256 .
  then show ?thesis by arith
qed

lemma in_class_any: "in_class [(CHR 0x00, CHR 0xFF)] c"
  using of_char_le_255 [of c] by (simp add: in_class_def)

lemma lang_rep_class: "w \<in> lang_rep {[c] | c. P c} \<longleftrightarrow> list_all P w"
proof (induction w)
  case Nil
  show ?case by (simp add: lang_rep.rep_nil)
next
  case (Cons a w)
  show ?case
    by (simp add: cons_in_lang_rep Cons.IH)
qed

lemma lang_any_star: "w \<in> lang (Rep any_char)"
proof -
  have "list_all (in_class [(CHR 0x00, CHR 0xFF)]) w"
    by (simp add: list_all_iff in_class_any)
  then have "w \<in> lang_rep {[c] | c. in_class [(CHR 0x00, CHR 0xFF)] c}"
    by (simp only: lang_rep_class)
  then show ?thesis
    by (simp add: any_char_def)
qed

lemma MatchString_iff:
  "MatchString re s \<longleftrightarrow>
     (\<exists>pre m post. s = pre @ m @ post \<and> m \<in> lang (Cat (before_group re) (group1 re))
        \<and> (if end_of_text re then post = [] else True))"
proof -
  let ?body = "Cat (before_group re) (group1 re)"
  let ?tail = "if end_of_text re then Empty else Rep any_char"
  have tail: "post \<in> lang ?tail \<longleftrightarrow> (if end_of_text re then post = [] else True)" for post
    using lang_any_star [of post] by (simp del: lang.simps(6))
  have "MatchString re s \<longleftrightarrow> s \<in> lang_cat (lang (Rep any_char)) (lang_cat (lang ?body) (lang ?tail))"
    by (simp add: MatchString_def matches_iff del: lang.simps(6))
  also have "\<dots> \<longleftrightarrow> (\<exists>pre m post. s = pre @ m @ post \<and> m \<in> lang ?body \<and> post \<in> lang ?tail)"
    using lang_any_star by (simp only: lang_cat_iff) blast
  finally show ?thesis
    by (simp only: tail)
qed

lemma in_lang_Cat: "w \<in> lang (Cat r s) \<longleftrightarrow> (\<exists>u v. w = u @ v \<and> u \<in> lang r \<and> v \<in> lang s)"
  by (simp add: lang_cat_iff)

lemma lang_CatI: "u \<in> lang r \<Longrightarrow> v \<in> lang s \<Longrightarrow> u @ v \<in> lang (Cat r s)"
  by (auto simp: lang_cat_iff)

lemma in_lang_plus_Class:
  "w \<in> lang (plus (Class cls)) \<longleftrightarrow> w \<noteq> [] \<and> list_all (in_class cls) w"
proof -
  have "w \<in> lang (plus (Class cls)) \<longleftrightarrow>
          (\<exists>u v. w = u @ v \<and> (\<exists>c. u = [c] \<and> in_class cls c) \<and> list_all (in_class cls) v)"
    by (simp add: plus_def lang_cat_iff lang_rep_class)
  also have "\<dots> \<longleftrightarrow> (\<exists>c v. w = [c] @ v \<and> in_class cls c \<and> list_all (in_class cls) v)"
    by blast
  also have "\<dots> \<longleftrightarrow> w \<noteq> [] \<and> list_all (in_class cls) w"
    by (cases w) auto
  finally show ?thesis .
qed

lemma in_class_lit: "in_class [(c, c)] d \<longleftrightarrow> d = c"
  by (auto simp: in_class_def)

lemma in_lang_lit: "w \<in> lang (lit c) \<longleftrightarrow> w = [c]"
  by (auto simp: lit_def in_class_lit)

lemma in_lang_lower: "w \<in> lang lower \<longleftrightarrow> (\<exists>c. w = [c] \<and> is_lower c)"
  by (simp add: lower_def is_lower_def)

lemma in_lang_digit: "w \<in> lang digit \<longleftrightarrow> (\<exists>c. w = [c] \<and> is_digit c)"
  by (simp add: digit_def is_digit_def)

lemma in_lang_plus_lower: "w \<in> lang (plus lower) \<longleftrightarrow> w \<noteq> [] \<and> list_all is_lower w"
proof -
  have "is_lower = in_class [(CHR ''a'', CHR ''z'')]"
    by (rule ext) (simp add: is_lower_def)
  then show ?thesis
    by (simp add: lower_def in_lang_plus_Class)
qed

lemma in_lang_plus_digit: "w \<in> lang (plus digit) \<longleftrightarrow> w \<noteq> [] \<and> list_all is_digit w"
proof -
  have "is_digit = in_class [(CHR ''0'', CHR ''9'')]"
    by (rule ext) (simp add: is_digit_def)
  then show ?thesis
    by (simp add: digit_def in_lang_plus_Class)
qed

lemmas regex_eval = MatchString_def az_re_def region_re_def sequential_re_def twice_def plus_def
  lit_def lower_def digit_def dot_def any_char_def in_class_def cat_def alt_def Regexp.simps

subsection \<open>Availability zone and region\<close>

lemma az_shape_iff: "az_shape s \<longleftrightarrow> s \<in> lang (before_group az_re)"
proof
  assume "az_shape s"
  then obtain a b w d l where s: "s = [a, b] @ ''-'' @ w @ ''-'' @ [d, l]"
    and ab: "is_lower a" "is_lower b" and w: "w \<noteq> []" "list_all is_lower w"
    and dl: "is_digit d" "is_lower l"
    unfolding az_shape_def by blast
  have 1: "[a, b] \<in> lang (twice lower)"
    using lang_CatI [of "[a]" lower "[b]" lower] ab by (simp add: twice_def in_lang_lower)
  have 2: "[d, l] \<in> lang (Cat digit lower)"
    using lang_CatI [of "[d]" digit "[l]" lower] dl by (simp add: in_lang_lower in_lang_digit)
  have 3: "''-'' @ [d, l] \<in> lang (Cat (lit CHR ''-'') (Cat digit lower))"
    unfolding in_lang_Cat [of _ "lit CHR ''-''"] in_lang_lit using 2 by blast
  have 4: "w @ ''-'' @ [d, l] \<in> lang (Cat (plus lower) (Cat (lit CHR ''-'') (Cat digit lower)))"
    unfolding in_lang_Cat [of _ "plus lower"] in_lang_plus_lower using 3 w by blast
  have 5: "''-'' @ w @ ''-'' @ [d, l]
             \<in> lang (Cat (lit CHR ''-'') (Cat (plus lower) (Cat (lit CHR ''-'') (Cat digit lower))))"
    unfolding in_lang_Cat [of _ "lit CHR ''-''" "Cat (plus lower) _"] in_lang_lit using 4 by blast
  show "s \<in> lang (before_group az_re)"
    unfolding az_re_def Regexp.simps s
    unfolding in_lang_Cat [of _ "twice lower"] using 1 5 by blast
next
  assume "s \<in> lang (before_group az_re)"
  then obtain x1 r1 where s: "s = x1 @ r1" and x1: "x1 \<in> lang (twice lower)"
    and r1: "r1 \<in> lang (Cat (lit CHR ''-'') (Cat (plus lower) (Cat (lit CHR ''-'') (Cat digit lower))))"
    unfolding az_re_def Regexp.simps in_lang_Cat [of _ "twice lower"] by blast
  from x1 obtain a b where ab: "x1 = [a, b]" "is_lower a" "is_lower b"
    unfolding twice_def in_lang_Cat in_lang_lower by auto
  from r1 obtain r2 where r2: "r1 = ''-'' @ r2"
      "r2 \<in> lang (Cat (plus lower) (Cat (lit CHR ''-'') (Cat digit lower)))"
    unfolding in_lang_Cat [of _ "lit CHR ''-''" "Cat (plus lower) _"] in_lang_lit by blast
  from r2(2) obtain w r3 where w: "r2 = w @ r3" "w \<noteq> []" "list_all is_lower w"
      and r3: "r3 \<in> lang (Cat (lit CHR ''-'') (Cat digit lower))"
    unfolding in_lang_Cat [of _ "plus lower"] in_lang_plus_lower by blast
  from r3 obtain r4 where r4: "r3 = ''-'' @ r4" "r4 \<in> lang (Cat digit lower)"
    unfolding in_lang_Cat [of _ "lit CHR ''-''"] in_lang_lit by blast
  from r4(2) obtain d l where dl: "r4 = [d, l]" "is_digit d" "is_lower l"
    unfolding in_lang_Cat in_lang_lower in_lang_digit by auto
  show "az_shape s"
    unfolding az_shape_def s ab(1) r2(1) w(1) r4(1) dl(1)
    using ab(2,3) w(2,3) dl(2,3) by blast
qed

lemma az_contains_iff:
  "MatchString az_re s \<longleftrightarrow> (\<exists>pre m post. s = pre @ m @ post \<and> az_shape m)"
proof -
  have "m \<in> lang (Cat (before_group az_re) (group1 az_re)) \<longleftrightarrow> az_shape m" for m
    unfolding az_shape_iff in_lang_Cat by (simp add: az_re_def)
  then show ?thesis
    unfolding MatchString_iff by (simp add: az_re_def)
qed

lemma az_shape_matches: "az_shape s \<longleftrightarrow> matches (before_group az_re) s"
  by (simp only: az_shape_iff matches_iff)

text \<open>
  C7, amended. A string of the shape of an availability zone loses its final character
  (the zone's letter). A string no part of which has that shape fails with the
  invalid-availability-zone error. "eu-west-1a" gives "eu-west-1", and "invalid" fails.
\<close>

theorem computeRegionFromAZ_shape_or_no_zone:
  "(az_shape az \<longrightarrow> computeRegionFromAZ az = (butlast az, None))
   \<and> (\<not> (\<exists>pre m post. az = pre @ m @ post \<and> az_shape m) \<longrightarrow>
        computeRegionFromAZ az = ('''', Some (InvalidAvailabilityZone az)))
   \<and> computeRegionFromAZ ''eu-west-1a'' = (''eu-west-1'', None)
   \<and> computeRegionFromAZ ''invalid'' = ('''', Some (InvalidAvailabilityZone ''invalid''))"
proof (intro conjI impI)
  assume "az_shape az"
  then have "az = [] @ az @ [] \<and> az_shape az" by simp
  then have "\<exists>pre m post. az = pre @ m @ post \<and> az_shape m" by blast
  then show "computeRegionFromAZ az = (butlast az, None)"
    by (simp add: computeRegionFromAZ_def az_contains_iff butlast_conv_take)
next
  assume "\<not> (\<exists>pre m post. az = pre @ m @ post \<and> az_shape m)"
  then show "computeRegionFromAZ az = ('''', Some (InvalidAvailabilityZone az))"
    by (simp add: computeRegionFromAZ_def az_contains_iff)
next
  show "computeRegionFromAZ ''eu-west-1a'' = (''eu-west-1'', None)"
    by (simp add: computeRegionFromAZ_def regex_eval)
next
  show "computeRegionFromAZ ''invalid'' = ('''', Some (InvalidAvailabilityZone ''invalid''))"
    by (simp add: computeRegionFromAZ_def regex_eval)
qed

theorem computeRegionFromAZ_shape_or_no_zone_witness:
  "az_shape ''us-east-2c'' \<and> computeRegionFromAZ ''us-east-2c'' = (''us-east-2'', None)
   \<and> \<not> (\<exists>pre m post. ''eu-west-1'' = pre @ m @ post \<and> az_shape m)
   \<and> computeRegionFromAZ ''eu-west-1'' = ('''', Some (InvalidAvailabilityZone ''eu-west-1''))"
proof -
  have a: "az_shape ''us-east-2c''"
    unfolding az_shape_matches by (simp add: regex_eval)
  have b: "\<not> (\<exists>pre m post. ''eu-west-1'' = pre @ m @ post \<and> az_shape m)"
    unfolding az_contains_iff [symmetric] by (simp add: regex_eval)
  show ?thesis
    using a b computeRegionFromAZ_shape_or_no_zone [of "''us-east-2c''"]
      computeRegionFromAZ_shape_or_no_zone [of "''eu-west-1''"]
    by simp
qed

text \<open>
  C7 as stated fails: "eu-west-1ab" does not have the shape of an availability zone, and
  \<open>computeRegionFromAZ\<close> does not reject it: it returns "eu-west-1a".
\<close>

theorem computeRegionFromAZ_longer_string:
  "\<not> az_shape ''eu-west-1ab'' \<and> computeRegionFromAZ ''eu-west-1ab'' = (''eu-west-1a'', None)"
proof
  show "\<not> az_shape ''eu-west-1ab''"
    unfolding az_shape_matches by (simp add: regex_eval)
  show "computeRegionFromAZ ''eu-west-1ab'' = (''eu-west-1a'', None)"
    by (simp add: computeRegionFromAZ_def regex_eval)
qed

subsection \<open>Instance-ID strategy\<close>

text \<open>
  The model takes \<open>len(base)-length\<close> and \<open>2+length\<close> as exact integers. With 64-bit
  arithmetic the two slice expressions behave the same: a result that wraps around is
  out of bounds before and after.
\<close>

lemma int64_id: "- (2 ^ 63) \<le> x \<Longrightarrow> x < 2 ^ 63 \<Longrightarrow> int64 x = x"
  by (simp add: int64_def)

lemma int64_above: "2 ^ 63 \<le> x \<Longrightarrow> x < 2 ^ 64 \<Longrightarrow> int64 x = x - 2 ^ 64"
proof -
  assume a: "2 ^ 63 \<le> x" "x < 2 ^ 64"
  have "(x + 2 ^ 63) mod 2 ^ 64 = (x + 2 ^ 63 - 2 ^ 64) mod 2 ^ 64"
    by (metis minus_mod_self2)
  also have "\<dots> = x + 2 ^ 63 - 2 ^ 64"
    using a by (intro mod_pos_pos_trivial) simp_all
  finally show ?thesis by (simp add: int64_def)
qed

lemma slices_do_not_depend_on_wrap_around:
  assumes "- (2 ^ 63) \<le> n" and "n < 2 ^ 63"
    and "int (length base) < 2 ^ 63" and "int (length instanceID) < 2 ^ 63"
  shows "slice_from base (int64 (int (length base) - n)) = slice_from base (int (length base) - n)
         \<and> slice instanceID 2 (int64 (2 + n)) = slice instanceID 2 (2 + n)"
proof
  show "slice_from base (int64 (int (length base) - n)) = slice_from base (int (length base) - n)"
  proof (cases "int (length base) - n < 2 ^ 63")
    case True
    then show ?thesis using assms by (simp add: int64_id)
  next
    case False
    then have "int64 (int (length base) - n) = int (length base) - n - 2 ^ 64"
      using assms by (intro int64_above) simp_all
    then show ?thesis using False assms by (simp add: slice_from_def)
  qed
  show "slice instanceID 2 (int64 (2 + n)) = slice instanceID 2 (2 + n)"
  proof (cases "2 + n < 2 ^ 63")
    case True
    then show ?thesis using assms by (simp add: int64_id)
  next
    case False
    then have "int64 (2 + n) = 2 + n - 2 ^ 64"
      using assms by (intro int64_above) simp_all
    then show ?thesis using False assms by (simp add: slice_def)
  qed
qed

lemma slice_from_short: "int (length s) < n \<Longrightarrow> slice_from s (int (length s) - n) = Panic"
  by (simp add: slice_from_def)

text \<open>
  Within bounds the function does what the strategy says: the base is kept when it
  already ends with the suffix, and extended otherwise.
\<close>

lemma computeHostnameWithInstanceID_in_bounds:
  assumes "0 \<le> n" and "n \<le> int (length base)" and "2 + n \<le> int (length instanceID)"
  shows "computeHostnameWithInstanceID base instanceID separator n =
           (if drop (length base - nat n) base = take (nat n) (drop 2 instanceID)
            then Return (base, None)
            else Return (base @ separator @ take (nat n) (drop 2 instanceID), None))"
proof -
  have a: "slice_from base (int (length base) - n) = Return (drop (length base - nat n) base)"
    using assms by (simp add: slice_from_def nat_diff_distrib')
  have b: "slice instanceID 2 (2 + n) = Return (take (nat n) (drop 2 instanceID))"
    using assms by (simp add: slice_def nat_add_distrib)
  show ?thesis
    by (simp add: computeHostnameWithInstanceID_def a b)
qed

text \<open>Re-running the strategy on a hostname it returned gives the same hostname.\<close>

lemma computeHostnameWithInstanceID_idempotent:
  assumes "computeHostnameWithInstanceID base instanceID separator n = Return (h, e)"
  shows "computeHostnameWithInstanceID h instanceID separator n = Return (h, None)"
proof -
  have n0: "0 \<le> n" and nb: "n \<le> int (length base)" and ni: "2 + n \<le> int (length instanceID)"
    using assms
    by (auto simp: computeHostnameWithInstanceID_def slice_from_def slice_def
        split: if_splits)
  let ?suf = "take (nat n) (drop 2 instanceID)"
  have len_suf: "length ?suf = nat n"
    using ni n0 by simp
  from assms computeHostnameWithInstanceID_in_bounds [OF n0 nb ni, of separator]
  consider (same) "h = base" "drop (length base - nat n) base = ?suf"
    | (ext) "h = base @ separator @ ?suf"
    by (auto split: if_splits)
  then show ?thesis
  proof cases
    case same
    then show ?thesis
      using computeHostnameWithInstanceID_in_bounds [OF n0 nb ni, of separator] by simp
  next
    case ext
    have hl: "n \<le> int (length h)"
      using ext len_suf n0 by simp
    have "drop (length h - nat n) h = ?suf"
      using ext len_suf by simp
    then show ?thesis
      using computeHostnameWithInstanceID_in_bounds [OF n0 hl ni, of separator] by simp
  qed
qed

text \<open>
  C3. The spec's example: base "web", instance ID "i-0123456789abcdef0", separator "-"
  and length 5 should give "web-01234". The base has 3 characters, so
  \<open>base[len(base)-length:]\<close> is \<open>base[-2:]\<close> and the function panics.
\<close>

theorem computeHostnameWithInstanceID_web_panics:
  "computeHostnameWithInstanceID ''web'' ''i-0123456789abcdef0'' ''-'' 5 = Panic"
  by (simp add: computeHostnameWithInstanceID_def slice_from_def)

text \<open>
  C4. A length that exceeds the usable part of the instance ID (what follows its two
  first characters) makes \<open>instanceID[2:2+length]\<close> panic, when \<open>base[len(base)-length:]\<close>
  has not panicked before: no error value is returned.
\<close>

theorem computeHostnameWithInstanceID_length_too_long:
  "int (length instanceID) - 2 < n \<Longrightarrow>
     computeHostnameWithInstanceID base instanceID separator n = Panic"
  by (cases "slice_from base (int (length base) - n)")
     (simp_all add: computeHostnameWithInstanceID_def slice_def)

theorem computeHostnameWithInstanceID_length_too_long_witness:
  "int (length ''i-0123'') - 2 < 5 \<and>
     computeHostnameWithInstanceID ''webserver'' ''i-0123'' ''-'' 5 = Panic"
  using computeHostnameWithInstanceID_length_too_long [of "''i-0123''" 5 "''webserver''" "''-''"]
  by simp

text \<open>
  C6. A base shorter than the suffix length does not end with the suffix; the strategy
  should return base + separator + suffix for it, and the function panics instead.
\<close>

theorem computeHostnameWithInstanceID_short_base:
  "int (length base) < n \<Longrightarrow>
     computeHostnameWithInstanceID base instanceID separator n = Panic"
  by (simp add: computeHostnameWithInstanceID_def slice_from_short)

theorem computeHostnameWithInstanceID_short_base_witness:
  "int (length ''db'') < 8 \<and>
     computeHostnameWithInstanceID ''db'' ''i-07263d49fca824ba5'' ''-'' 8 = Panic"
  using computeHostnameWithInstanceID_short_base [of "''db''" 8 "''i-07263d49fca824ba5''" "''-''"]
  by simp

subsection \<open>The lowest free sequential ID\<close>

lemmas strconv_eval = Atoi_def is_digit_def in_class_def decimal_def maxInt_def minInt_def Let_def

lemmas example_eval = example_env_def peer_def all_tags_def world0_def

lemma first_gap_bounds:
  "i \<le> length used \<Longrightarrow>
     int i + 1 \<le> first_gap used i \<and> first_gap used i \<le> int (length used) + 1"
proof (induction used i rule: first_gap.induct)
  case (1 used i)
  show ?case
  proof (cases "i < length used")
    case True
    note lt = this
    show ?thesis
    proof (cases "used ! i \<noteq> int i + 1")
      case True
      with lt show ?thesis by (subst (1 2) first_gap.simps) simp
    next
      case False
      with lt "1.IH"
      have "int (Suc i) + 1 \<le> first_gap used (Suc i)
              \<and> first_gap used (Suc i) \<le> int (length used) + 1"
        by simp
      with lt False show ?thesis by (subst (1 2) first_gap.simps) simp
    qed
  next
    case False
    with "1.prems" show ?thesis by (subst (1 2) first_gap.simps) simp
  qed
qed

lemma collect_used_length:
  "collect_used st ts acc = (used, None) \<Longrightarrow>
     length used = length acc + length (filter (\<lambda>t. Key t = st) ts)"
proof (induction ts arbitrary: acc)
  case Nil
  then show ?case by simp
next
  case (Cons t ts)
  then show ?case
    by (auto split: if_splits prod.splits)
qed

text \<open>
  C10. Whatever the peers' tags hold (zero, negative numbers, duplicates), a sequential
  ID that \<open>findAvailableNumberInInstanceGroup\<close> returns without error is at least 1 and
  at most the number of sequential-ID tags in the answer plus 1.
\<close>

theorem findAvailableNumberInInstanceGroup_bounds:
  assumes "findAvailableNumberInInstanceGroup env instanceGroup groupTag sequentialIDTag w
             = ((n, None), w')"
  shows "1 \<le> n \<and>
         n \<le> int (length (filter (\<lambda>t. Key t = sequentialIDTag)
                (all_tags (fst (ec2_describe_instances env (requests w)
                   [(''tag:'' @ groupTag, [instanceGroup])]))))) + 1"
proof -
  let ?resp = "ec2_describe_instances env (requests w) [(''tag:'' @ groupTag, [instanceGroup])]"
  obtain used where c: "collect_used sequentialIDTag (all_tags (fst ?resp)) [] = (used, None)"
    and n: "n = first_gap (sort used) 0"
    using assms
    by (auto simp: findAvailableNumberInInstanceGroup_def Let_def
        split: prod.splits if_splits option.splits)
  have "length used = length (filter (\<lambda>t. Key t = sequentialIDTag) (all_tags (fst ?resp)))"
    using collect_used_length [OF c] by simp
  moreover have "int 0 + 1 \<le> first_gap (sort used) 0
                   \<and> first_gap (sort used) 0 \<le> int (length (sort used)) + 1"
    by (rule first_gap_bounds) simp
  ultimately show ?thesis using n by simp
qed

theorem findAvailableNumberInInstanceGroup_bounds_witness:
  "findAvailableNumberInInstanceGroup
     (example_env [\<lparr>Instances = [peer ''i-0a'' [(''SeqId'', ''0'')],
                                    peer ''i-0b'' [(''SeqId'', ''-3''), (''Name'', ''web'')],
                                    peer ''i-0c'' [(''SeqId'', ''1'')],
                                    peer ''i-0d'' [(''SeqId'', ''1'')]]\<rparr>] [])
     ''web'' ''Group'' ''SeqId'' world0
   = ((1, None), \<lparr>requests = 1, trace = [EC2DescribeInstances [(''tag:Group'', [''web''])]]\<rparr>)
   \<and> (1::int) \<le> 1 \<and> (1::int) \<le> 4 + 1"
proof -
  let ?env = "example_env [\<lparr>Instances = [peer ''i-0a'' [(''SeqId'', ''0'')],
                                    peer ''i-0b'' [(''SeqId'', ''-3''), (''Name'', ''web'')],
                                    peer ''i-0c'' [(''SeqId'', ''1'')],
                                    peer ''i-0d'' [(''SeqId'', ''1'')]]\<rparr>] []"
  have h: "findAvailableNumberInInstanceGroup ?env ''web'' ''Group'' ''SeqId'' world0
     = ((1, None), \<lparr>requests = 1, trace = [EC2DescribeInstances [(''tag:Group'', [''web''])]]\<rparr>)"
    by (simp add: findAvailableNumberInInstanceGroup_def example_eval strconv_eval ec2_request_def)
  show ?thesis
    using h findAvailableNumberInInstanceGroup_bounds [OF h]
    by (simp add: example_eval)
qed

text \<open>
  When the observed IDs are positive and pairwise distinct, the scan returns the lowest
  positive integer that is not among them.
\<close>

lemma strictly_sorted_positive_nth:
  assumes "sorted xs" and "distinct xs" and "list_all (\<lambda>x. 0 < x) xs" and "i < length xs"
  shows "int i + 1 \<le> xs ! i"
  using assms(4)
proof (induction i)
  case 0
  then have "xs ! 0 \<in> set xs" by simp
  with assms(3) have "0 < xs ! 0" unfolding list_all_iff by blast
  then show ?case by simp
next
  case (Suc i)
  then have "int i + 1 \<le> xs ! i" by simp
  moreover have "xs ! i \<le> xs ! Suc i"
    using assms(1) Suc.prems by (simp add: sorted_iff_nth_mono)
  moreover have "xs ! i \<noteq> xs ! Suc i"
    using assms(2) Suc.prems by (simp add: nth_eq_iff_index_eq)
  ultimately show ?case by simp
qed

lemma first_gap_lowest_free:
  "sorted xs \<Longrightarrow> distinct xs \<Longrightarrow> list_all (\<lambda>x. 0 < x) xs \<Longrightarrow> i \<le> length xs \<Longrightarrow>
   (\<forall>j<i. xs ! j = int j + 1) \<Longrightarrow>
     first_gap xs i \<notin> set xs \<and> (\<forall>k. 0 < k \<and> k < first_gap xs i \<longrightarrow> k \<in> set xs)"
proof (induction xs i rule: first_gap.induct)
  case (1 used i)
  note srt = "1.prems"(1) and dst = "1.prems"(2) and pos = "1.prems"(3)
    and le = "1.prems"(4) and inv = "1.prems"(5)
  have present: "k \<in> set used" if "0 < k" "k < int i + 1" for k
  proof -
    have lt: "nat (k - 1) < i" using that by simp
    then have "used ! nat (k - 1) = int (nat (k - 1)) + 1" using inv by blast
    then have "used ! nat (k - 1) = k" using that by simp
    moreover have "nat (k - 1) < length used" using lt le by simp
    ultimately show ?thesis by (metis nth_mem)
  qed
  show ?case
  proof (cases "i < length used")
    case False
    then have i: "i = length used" using le by simp
    have r: "first_gap used i = int (length used) + 1"
      using False by (subst first_gap.simps) simp
    have "int (length used) + 1 \<notin> set used"
    proof
      assume "int (length used) + 1 \<in> set used"
      then obtain j where "j < length used" "used ! j = int (length used) + 1"
        by (auto simp: in_set_conv_nth)
      with inv i show False by auto
    qed
    with present r i show ?thesis by simp
  next
    case True
    note lt = this
    show ?thesis
    proof (cases "used ! i \<noteq> int i + 1")
      case False
      have inv': "\<forall>j<Suc i. used ! j = int j + 1"
        using inv False by (auto simp: less_Suc_eq)
      have "first_gap used i = first_gap used (Suc i)"
        using lt False by (subst first_gap.simps) simp
      moreover have "first_gap used (Suc i) \<notin> set used
          \<and> (\<forall>k. 0 < k \<and> k < first_gap used (Suc i) \<longrightarrow> k \<in> set used)"
        using "1.IH" [OF lt _ srt dst pos _ inv'] lt False by simp
      ultimately show ?thesis by simp
    next
      case True
      have r: "first_gap used i = int i + 1"
        using lt True by (subst first_gap.simps) simp
      have big: "int i + 1 < used ! i"
        using strictly_sorted_positive_nth [OF srt dst pos lt] True by simp
      have "int i + 1 \<notin> set used"
      proof
        assume "int i + 1 \<in> set used"
        then obtain j where j: "j < length used" "used ! j = int i + 1"
          by (auto simp: in_set_conv_nth)
        show False
        proof (cases "j < i")
          case True
          with inv j show False by auto
        next
          case False
          then have "used ! i \<le> used ! j"
            using srt j(1) by (simp add: sorted_iff_nth_mono)
          with big j show False by simp
        qed
      qed
      with present r show ?thesis by simp
    qed
  qed
qed

lemma lowest_free_id:
  assumes "distinct used" and "list_all (\<lambda>x. 0 < x) used"
  shows "first_gap (sort used) 0 \<notin> set used
         \<and> 0 < first_gap (sort used) 0
         \<and> (\<forall>k. 0 < k \<and> k < first_gap (sort used) 0 \<longrightarrow> k \<in> set used)"
proof -
  have "list_all (\<lambda>x. 0 < x) (sort used)"
    using assms(2) by (simp add: list_all_iff)
  then have "first_gap (sort used) 0 \<notin> set (sort used)
      \<and> (\<forall>k. 0 < k \<and> k < first_gap (sort used) 0 \<longrightarrow> k \<in> set (sort used))"
    using assms(1) by (intro first_gap_lowest_free) simp_all
  moreover have "int 0 + 1 \<le> first_gap (sort used) 0"
    using first_gap_bounds [of 0 "sort used"] by simp
  ultimately show ?thesis by simp
qed

text \<open>The examples of the spec: IDs 1, 2, 4 give 3; IDs 1, 2, 3 give 4; no ID gives 1.\<close>

lemma first_gap_examples:
  "first_gap (sort [1, 2, 4]) 0 = 3 \<and> first_gap (sort [1, 2, 3]) 0 = 4
     \<and> first_gap (sort []) 0 = 1"
  by simp

text \<open>
  C2. Two peers of the group carry the sequential ID 1 and a third one the ID 2 (the
  race of section 5 of the spec leaves such duplicates). The lowest positive integer not
  in use is 3; the scan compares the sorted list 1, 1, 2 with 1, 2, 3 position by
  position and returns 2, which a peer holds.
\<close>

theorem findAvailableNumberInInstanceGroup_duplicate_ids:
  "fst (findAvailableNumberInInstanceGroup
         (example_env [\<lparr>Instances = [peer ''i-0a'' [(''SeqId'', ''1'')],
                                        peer ''i-0b'' [(''SeqId'', ''1'')],
                                        peer ''i-0c'' [(''SeqId'', ''2'')]]\<rparr>] [])
         ''web'' ''Group'' ''SeqId'' world0) = (2, None)"
  by (simp add: findAvailableNumberInInstanceGroup_def example_eval strconv_eval)

subsection \<open>The pattern of an allocated hostname\<close>

lemma in_lang_dot_star_nil: "[] \<in> lang (Rep dot)"
  by (simp add: lang_rep.rep_nil)

lemma sequential_match_iff:
  "MatchString sequential_re s \<longleftrightarrow>
     (\<exists>pre ds. s = pre @ ''-'' @ ds \<and> ds \<noteq> [] \<and> list_all is_digit ds)"
proof
  assume "MatchString sequential_re s"
  then obtain p m where s: "s = p @ m"
    and m: "m \<in> lang (Cat (Cat (Rep dot) (lit CHR ''-'')) (plus digit))"
    unfolding MatchString_iff by (auto simp: sequential_re_def simp del: lang.simps)
  from m obtain x ds where "m = x @ ds" and x: "x \<in> lang (Cat (Rep dot) (lit CHR ''-''))"
    and ds: "ds \<in> lang (plus digit)"
    unfolding in_lang_Cat [of m] by blast
  moreover from x obtain a where "x = a @ ''-''"
    unfolding in_lang_Cat in_lang_lit by blast
  ultimately have "s = (p @ a) @ ''-'' @ ds"
    using s by simp
  with ds show "\<exists>pre ds. s = pre @ ''-'' @ ds \<and> ds \<noteq> [] \<and> list_all is_digit ds"
    unfolding in_lang_plus_digit by blast
next
  assume "\<exists>pre ds. s = pre @ ''-'' @ ds \<and> ds \<noteq> [] \<and> list_all is_digit ds"
  then obtain pre ds where s: "s = pre @ ''-'' @ ds" and ds: "ds \<noteq> []" "list_all is_digit ds"
    by blast
  have "[] @ ''-'' \<in> lang (Cat (Rep dot) (lit CHR ''-''))"
    by (rule lang_CatI) (simp_all add: in_lang_dot_star_nil in_lang_lit del: lang.simps)
  moreover have "ds \<in> lang (plus digit)"
    using ds by (simp add: in_lang_plus_digit)
  ultimately have "([] @ ''-'') @ ds \<in> lang (Cat (Cat (Rep dot) (lit CHR ''-'')) (plus digit))"
    by (rule lang_CatI)
  then have "s = pre @ (''-'' @ ds) @ []
      \<and> ''-'' @ ds \<in> lang (Cat (before_group sequential_re) (group1 sequential_re))
      \<and> (if end_of_text sequential_re then [] = [] else True)"
    using s by (simp add: sequential_re_def del: lang.simps)
  then show "MatchString sequential_re s"
    unfolding MatchString_iff by blast
qed

lemma in_set_splits: "(u, v) \<in> set (splits s) \<longleftrightarrow> u @ v = s"
proof (induction s arbitrary: u)
  case Nil
  show ?case by auto
next
  case (Cons c s)
  have "(u, v) \<in> set (splits (c # s)) \<longleftrightarrow>
          (u = [] \<and> v = c # s) \<or> (\<exists>u'. u = c # u' \<and> (u', v) \<in> set (splits s))"
    by (auto simp: image_iff)
  also have "\<dots> \<longleftrightarrow> u @ v = c # s"
    unfolding Cons.IH by (cases u) auto
  finally show ?case .
qed

lemma distinct_splits: "distinct (map fst (splits s))"
proof (induction s)
  case Nil
  show ?case by simp
next
  case (Cons c s)
  have "map fst (map (\<lambda>(u, v). (c # u, v)) (splits s)) = map ((#) c) (map fst (splits s))"
    by (simp add: case_prod_beta)
  then show ?case
    using Cons.IH by (auto simp: distinct_map inj_on_def)
qed

lemma ends_with_dash_iff:
  "matches (Cat (Rep any_char) (before_group sequential_re)) u \<longleftrightarrow> (\<exists>x. u = x @ ''-'')"
proof
  assume "matches (Cat (Rep any_char) (before_group sequential_re)) u"
  then obtain a b where "u = a @ b" and "b \<in> lang (Cat (Rep dot) (lit CHR ''-''))"
    unfolding matches_iff in_lang_Cat [of u] by (auto simp: sequential_re_def simp del: lang.simps)
  moreover then obtain c where "b = c @ ''-''"
    unfolding in_lang_Cat in_lang_lit by blast
  ultimately have "u = (a @ c) @ ''-''" by simp
  then show "\<exists>x. u = x @ ''-''" by blast
next
  assume "\<exists>x. u = x @ ''-''"
  then obtain x where u: "u = x @ ''-''" by blast
  have "[] @ ''-'' \<in> lang (Cat (Rep dot) (lit CHR ''-''))"
    by (rule lang_CatI) (simp_all add: in_lang_dot_star_nil in_lang_lit del: lang.simps)
  with lang_any_star [of x] have "x @ ([] @ ''-'') \<in> lang (Cat (Rep any_char) (Cat (Rep dot) (lit CHR ''-'')))"
    by (rule lang_CatI)
  then show "matches (Cat (Rep any_char) (before_group sequential_re)) u"
    unfolding matches_iff u by (simp add: sequential_re_def del: lang.simps)
qed

lemma digits_iff: "matches (group1 sequential_re) g \<longleftrightarrow> g \<noteq> [] \<and> list_all is_digit g"
  unfolding matches_iff by (simp add: sequential_re_def in_lang_plus_digit del: lang.simps)

lemma dash_not_digit: "\<not> is_digit CHR ''-''"
  by (simp add: is_digit_def in_class_def)

lemma after_last_dash:
  assumes "x @ ''-'' @ g = y @ ''-'' @ h" and "list_all is_digit g" and "list_all is_digit h"
  shows "x = y \<and> g = h"
proof -
  have suffix: "takeWhile (\<lambda>c. c \<noteq> CHR ''-'') (rev (a @ ''-'' @ ds)) = rev ds"
    if "list_all is_digit ds" for a ds
  proof -
    have "c \<noteq> CHR ''-''" if "c \<in> set (rev ds)" for c
      using that \<open>list_all is_digit ds\<close> dash_not_digit by (auto simp: list_all_iff)
    then have "takeWhile (\<lambda>c. c \<noteq> CHR ''-'') (rev ds @ ''-'' @ rev a)
                 = rev ds @ takeWhile (\<lambda>c. c \<noteq> CHR ''-'') (''-'' @ rev a)"
      by (rule takeWhile_append2)
    then show ?thesis by simp
  qed
  have "rev g = takeWhile (\<lambda>c. c \<noteq> CHR ''-'') (rev (x @ ''-'' @ g))"
    using suffix [OF assms(2), of x] by simp
  also have "\<dots> = takeWhile (\<lambda>c. c \<noteq> CHR ''-'') (rev (y @ ''-'' @ h))"
    by (simp only: assms(1))
  also have "\<dots> = rev h"
    using suffix [OF assms(3), of y] by simp
  finally have "g = h" by simp
  with assms(1) show ?thesis by simp
qed

lemma distinct_singleton:
  assumes "distinct xs" and "set xs = {x}"
  shows "xs = [x]"
proof (cases xs)
  case Nil
  with assms(2) show ?thesis by simp
next
  case (Cons a list)
  with assms have "a = x" and "set list \<subseteq> {x}" and "a \<notin> set list" by auto
  then have "y \<notin> set list" for y by auto
  then have "list = []" by (cases list) auto
  with Cons \<open>a = x\<close> show ?thesis by simp
qed

text \<open>
  Whatever match \<open>regexp\<close> reports, its group 1 is the run of digits after the last
  dash: there is no other candidate.
\<close>

lemma submatches_sequential:
  assumes "ds \<noteq> []" and "list_all is_digit ds"
  shows "submatches sequential_re (pre @ ''-'' @ ds) = [ds]"
proof -
  let ?s = "pre @ ''-'' @ ds"
  let ?P = "\<lambda>(u, g). matches (Cat (Rep any_char) (before_group sequential_re)) u
              \<and> matches (group1 sequential_re) g"
  have "distinct (splits ?s)"
    using distinct_splits [of ?s] by (rule distinct_map [THEN iffD1, THEN conjunct1])
  then have d: "distinct (filter ?P (splits ?s))" by simp
  have "set (filter ?P (splits ?s)) = {(pre @ ''-'', ds)}"
  proof (intro equalityI subsetI)
    fix z assume z: "z \<in> set (filter ?P (splits ?s))"
    obtain u g where zug: "z = (u, g)" by (cases z)
    from z zug have ug: "u @ g = ?s" and "\<exists>x. u = x @ ''-''" and g: "g \<noteq> []" "list_all is_digit g"
      by (simp_all add: in_set_splits ends_with_dash_iff digits_iff)
    then obtain x where x: "u = x @ ''-''" by blast
    with ug have "x @ ''-'' @ g = pre @ ''-'' @ ds" by simp
    from after_last_dash [OF this g(2) assms(2)] x zug show "z \<in> {(pre @ ''-'', ds)}" by simp
  next
    fix z assume "z \<in> {(pre @ ''-'', ds)}"
    then have z: "z = (pre @ ''-'', ds)" by simp
    have "\<exists>x. pre @ ''-'' = x @ ''-''" by blast
    then show "z \<in> set (filter ?P (splits ?s))"
      using assms by (simp add: z in_set_splits ends_with_dash_iff digits_iff)
  qed
  with d have "filter ?P (splits ?s) = [(pre @ ''-'', ds)]"
    by (rule distinct_singleton)
  then show ?thesis
    by (simp add: submatches_def)
qed

subsection \<open>Sequential strategy\<close>

lemma Atoi_digits:
  assumes "ds \<noteq> []" and "list_all is_digit ds"
  shows "Atoi ds = (if maxInt < int (decimal ds) then (maxInt, Some (NumError ds ErrRange))
                    else (int (decimal ds), None))"
proof -
  obtain c cs where ds: "ds = c # cs" using assms(1) by (cases ds) auto
  have "is_digit c" using assms(2) ds by simp
  then have "c \<noteq> CHR ''+''" and "c \<noteq> CHR ''-''"
    by (auto simp: is_digit_def in_class_def)
  moreover have "\<not> list_ex (\<lambda>c. \<not> is_digit c) ds"
    using assms(2) by (simp add: list_ex_iff list_all_iff)
  ultimately show ?thesis
    unfolding Atoi_def by (simp add: ds Let_def)
qed

text \<open>
  C5, as the code has it. A base that ends with a dash and digits whose value fits
  \<open>int\<close> is returned unchanged with that value and no error; the world is unchanged,
  so neither the group tag nor the peers were queried.
\<close>

theorem computeSequentialHostname_already_allocated:
  assumes "ds \<noteq> []" and "list_all is_digit ds" and "int (decimal ds) \<le> maxInt"
  shows "computeSequentialHostname env (pre @ ''-'' @ ds) instanceID separator groupTag
           sequentialIDTag w
         = (Return (pre @ ''-'' @ ds, int (decimal ds), None), w)"
proof -
  have m: "MatchString sequential_re (pre @ ''-'' @ ds)"
    unfolding sequential_match_iff using assms(1,2) by blast
  have a: "Atoi ds = (int (decimal ds), None)"
    using Atoi_digits [OF assms(1,2)] assms(3) by simp
  show ?thesis
    unfolding computeSequentialHostname_def
    by (simp only: m submatches_sequential [OF assms(1,2)] a if_True list.case prod.case Let_def)
qed

theorem computeSequentialHostname_already_allocated_witness:
  "''7'' \<noteq> [] \<and> list_all is_digit ''7'' \<and> int (decimal ''7'') \<le> maxInt
   \<and> computeSequentialHostname (example_env [] []) ''web-7'' ''i-0123456789abcdef0'' ''-''
        ''Group'' ''SeqId'' world0
      = (Return (''web-7'', 7, None), world0)"
proof -
  have h: "''7'' \<noteq> []" "list_all is_digit ''7''" "int (decimal ''7'') \<le> maxInt"
    by (simp_all add: strconv_eval)
  have d: "int (decimal ''7'') = 7"
    by (simp add: decimal_def)
  show ?thesis
    using h computeSequentialHostname_already_allocated [OF h, of "example_env [] []" "''web''"
        "''i-0123456789abcdef0''" "''-''" "''Group''" "''SeqId''" world0]
    by (simp add: d)
qed

text \<open>
  C5 as stated fails on digits beyond the range of \<open>int\<close>: for "web-9223372036854775808"
  \<open>Atoi\<close> reports a range error, and the function returns it with the largest \<open>int\<close>, not
  with the number the digits spell.
\<close>

theorem computeSequentialHostname_out_of_range:
  "computeSequentialHostname (example_env [] []) ''web-9223372036854775808''
     ''i-0123456789abcdef0'' ''-'' ''Group'' ''SeqId'' world0
   = (Return (''web-9223372036854775808'', 9223372036854775807,
              Some (NumError ''9223372036854775808'' ErrRange)), world0)"
proof -
  have h: "''9223372036854775808'' \<noteq> []" "list_all is_digit ''9223372036854775808''"
    by (simp_all add: strconv_eval)
  have m: "MatchString sequential_re (''web'' @ ''-'' @ ''9223372036854775808'')"
    unfolding sequential_match_iff using h by blast
  have a: "Atoi ''9223372036854775808''
             = (9223372036854775807, Some (NumError ''9223372036854775808'' ErrRange))"
    by (simp add: strconv_eval)
  have "computeSequentialHostname (example_env [] []) (''web'' @ ''-'' @ ''9223372036854775808'')
     ''i-0123456789abcdef0'' ''-'' ''Group'' ''SeqId'' world0
   = (Return (''web'' @ ''-'' @ ''9223372036854775808'', 9223372036854775807,
              Some (NumError ''9223372036854775808'' ErrRange)), world0)"
    unfolding computeSequentialHostname_def
    by (simp only: m submatches_sequential [OF h] a if_True list.case prod.case Let_def)
  then show ?thesis by simp
qed

text \<open>
  C8. When the \<open>DescribeTags\<close> request succeeds, \<open>findInstanceGroupTagValue\<close> returns the
  tag's value without error if the answer holds exactly one tag, and the error
  "unexpected amount of tags" with the empty string if it holds none or several.
\<close>

theorem findInstanceGroupTagValue_exactly_one:
  assumes "ec2_describe_tags env (requests w)
             [(''resource-type'', [''instance'']), (''resource-id'', [instanceID]),
              (''key'', [groupTag])] = (tags, None)"
  shows "fst (findInstanceGroupTagValue env groupTag instanceID w) =
           (if length tags = 1 then (Value (hd tags), None)
            else ('''', Some (UnexpectedTagCount (length tags))))"
  using assms by (cases tags) (simp_all add: findInstanceGroupTagValue_def)

theorem findInstanceGroupTagValue_exactly_one_witness:
  "fst (findInstanceGroupTagValue (example_env [] [\<lparr>Key = ''Group'', Value = ''web''\<rparr>])
          ''Group'' ''i-0123456789abcdef0'' world0) = (''web'', None)
   \<and> fst (findInstanceGroupTagValue (example_env [] []) ''Group'' ''i-0123456789abcdef0'' world0)
       = ('''', Some (UnexpectedTagCount 0))
   \<and> fst (findInstanceGroupTagValue
            (example_env [] [\<lparr>Key = ''Group'', Value = ''web''\<rparr>, \<lparr>Key = ''Group'', Value = ''db''\<rparr>])
            ''Group'' ''i-0123456789abcdef0'' world0)
       = ('''', Some (UnexpectedTagCount 2))"
  using findInstanceGroupTagValue_exactly_one
          [of "example_env [] [\<lparr>Key = ''Group'', Value = ''web''\<rparr>]" world0
              "''i-0123456789abcdef0''" "''Group''" "[\<lparr>Key = ''Group'', Value = ''web''\<rparr>]"]
        findInstanceGroupTagValue_exactly_one
          [of "example_env [] []" world0 "''i-0123456789abcdef0''" "''Group''" "[]"]
        findInstanceGroupTagValue_exactly_one
          [of "example_env [] [\<lparr>Key = ''Group'', Value = ''web''\<rparr>, \<lparr>Key = ''Group'', Value = ''db''\<rparr>]"
              world0 "''i-0123456789abcdef0''" "''Group''"
              "[\<lparr>Key = ''Group'', Value = ''web''\<rparr>, \<lparr>Key = ''Group'', Value = ''db''\<rparr>]"]
  by (simp add: example_env_def)

text \<open>A request that fails hands its error on.\<close>

lemma findInstanceGroupTagValue_request_error:
  assumes "ec2_describe_tags env (requests w)
             [(''resource-type'', [''instance'']), (''resource-id'', [instanceID]),
              (''key'', [groupTag])] = (tags, Some e)"
  shows "fst (findInstanceGroupTagValue env groupTag instanceID w) = ('''', Some e)"
  using assms by (simp add: findInstanceGroupTagValue_def)

subsection \<open>The retry loop\<close>

text \<open>
  The delays of the backoff that \<open>run\<close> configures: 100 ms, 200 ms, ... , 51.2 s, 102.4 s,
  then 120 s for ever. None of them is 60 s, the value the loop waits for.
\<close>

lemma ForAttempt_configured:
  assumes "Factor b = 2" and "Min_dur b = 100 * Millisecond" and "Max_dur b = 120 * Second"
  shows "ForAttempt b n = (if n < 11 then 100000000 * 2 ^ n else 120000000000)"
proof (cases "n < 11")
  case True
  then have "(2::int) ^ n \<le> 2 ^ 10"
    by (intro power_increasing) simp_all
  then have "100000000 * (2::int) ^ n \<le> 120000000000" by simp
  with True show ?thesis
    by (simp add: ForAttempt_def assms Millisecond_def Second_def Let_def)
next
  case False
  then have "(2::int) ^ 11 \<le> 2 ^ n"
    by (intro power_increasing) simp_all
  then have "120000000000 < 100000000 * (2::int) ^ n" by simp
  with False show ?thesis
    by (simp add: ForAttempt_def assms Millisecond_def Second_def Let_def)
qed

lemma ForAttempt_never_60s:
  assumes "Factor b = 2" and "Min_dur b = 100 * Millisecond" and "Max_dur b = 120 * Second"
  shows "ForAttempt b n \<noteq> 60 * Second"
proof (cases "n < 10")
  case True
  then have "(2::int) ^ n \<le> 2 ^ 9"
    by (intro power_increasing) simp_all
  then have "100000000 * (2::int) ^ n < 60000000000" by simp
  with True show ?thesis
    by (simp add: ForAttempt_configured [OF assms] Second_def)
next
  case False
  then have "(2::int) ^ 10 \<le> 2 ^ n"
    by (intro power_increasing) simp_all
  then have "60000000000 < 100000000 * (2::int) ^ n" by simp
  then show ?thesis
    by (simp add: ForAttempt_configured [OF assms] Second_def)
qed

text \<open>The cap itself is reached at the twelfth delay and kept from then on.\<close>

lemma ForAttempt_reaches_cap:
  assumes "Factor b = 2" and "Min_dur b = 100 * Millisecond" and "Max_dur b = 120 * Second"
  shows "ForAttempt b n = 120 * Second \<longleftrightarrow> 11 \<le> n"
proof (cases "n < 11")
  case True
  then have "(2::int) ^ n \<le> 2 ^ 10"
    by (intro power_increasing) simp_all
  then have "100000000 * (2::int) ^ n < 120000000000" by simp
  with True show ?thesis
    by (simp add: ForAttempt_configured [OF assms] Second_def)
next
  case False
  then show ?thesis
    by (simp add: ForAttempt_configured [OF assms] Second_def)
qed

lemma fetchBase_retries_for_ever:
  assumes fails: "\<forall>w. snd (fst (getBaseFromInputTag env tag iid w)) \<noteq> None"
  shows "InputTag p = tag \<Longrightarrow> InstanceID v = iid \<Longrightarrow> Factor (Backoff p) = 2 \<Longrightarrow>
         Min_dur (Backoff p) = 100 * Millisecond \<Longrightarrow> Max_dur (Backoff p) = 120 * Second \<Longrightarrow>
           fst (fetchBase n env p v w) = Some Retrying"
proof (induction n arbitrary: p v w)
  case 0
  show ?case by simp
next
  case (Suc n)
  obtain base err w1 where g: "getBaseFromInputTag env (InputTag p) (InstanceID v) w = ((base, err), w1)"
    by (metis surj_pair)
  have err: "err \<noteq> None"
    using fails [rule_format, of w] g Suc.prems(1,2) by simp
  have d: "fst (Duration (Backoff p)) \<noteq> 60 * Second"
    using ForAttempt_never_60s [OF Suc.prems(3-5)] by (simp add: Duration_def)
  let ?p1 = "p\<lparr>Backoff := snd (Duration (Backoff p))\<rparr>"
  let ?v1 = "v\<lparr>Base := base\<rparr>"
  have "fetchBase (Suc n) env p v w
          = fetchBase n env ?p1 ?v1 (emit (Sleep (fst (Duration (Backoff p)))) w1)"
    using err d by (simp add: g case_prod_beta Let_def)
  moreover have "fst (fetchBase n env ?p1 ?v1 (emit (Sleep (fst (Duration (Backoff p)))) w1))
                   = Some Retrying"
    using Suc.prems by (intro Suc.IH) (simp_all add: Duration_def)
  ultimately show ?case by simp
qed

text \<open>
  C1. When every attempt to fetch the base fails, the loop of \<open>run\<close> does not stop:
  after any number of attempts it is still retrying. It stops on a delay of 60 s, which
  the configured backoff (100 ms doubled up to the cap of 120 s) never gives.
\<close>

theorem fetchBase_never_gives_up:
  assumes "\<forall>w. snd (fst (getBaseFromInputTag env (flag_input_tag ctx) (InstanceID v) w)) \<noteq> None"
  shows "fst (fetchBase n env (initial_params ctx) v w) = Some Retrying"
  using assms
  by (intro fetchBase_retries_for_ever [where tag = "flag_input_tag ctx" and iid = "InstanceID v"])
     (simp_all add: initial_params_def)

theorem fetchBase_never_gives_up_witness:
  "(\<forall>w. snd (fst (getBaseFromInputTag (example_env [] []) ''Name'' (InstanceID initial_values) w))
        \<noteq> None)
   \<and> fst (fetchBase 1000 (example_env [] [])
            (initial_params \<lparr>command_name = ''instance-id'', flag_dry_run = False,
               flag_input_tag = ''Name'', flag_output_tag = ''Name'', flag_separator = ''-'',
               flag_length = 5, flag_group_tag = ''Group'', flag_sequential_id_tag = ''SeqId''\<rparr>)
            initial_values world0) = Some Retrying"
proof -
  let ?ctx = "\<lparr>command_name = ''instance-id'', flag_dry_run = False,
               flag_input_tag = ''Name'', flag_output_tag = ''Name'', flag_separator = ''-'',
               flag_length = 5, flag_group_tag = ''Group'', flag_sequential_id_tag = ''SeqId''\<rparr>"
  have h: "\<forall>w. snd (fst (getBaseFromInputTag (example_env [] []) (flag_input_tag ?ctx)
                (InstanceID initial_values) w)) \<noteq> None"
    by (simp add: getBaseFromInputTag_def example_env_def all_tags_def)
  show ?thesis
    using h fetchBase_never_gives_up [OF h, of 1000 world0] by simp
qed

text \<open>
  The whole command on an instance without the input tag: whatever the number of
  attempts, \<open>run\<close> has not returned.
\<close>

lemma run_without_input_tag:
  "fst (run n (example_env [] ts) ctx) = Retrying"
proof -
  let ?env = "example_env [] ts"
  let ?v1 = "initial_values\<lparr>AZ := ''eu-west-1a'', Region := ''eu-west-1'',
               InstanceID := ''i-0123456789abcdef0''\<rparr>"
  let ?w1 = "\<lparr>requests = 0, trace = [MDSAvailable, MDSGetMetadata ''placement/availability-zone'',
               MDSGetMetadata ''instance-id'']\<rparr>"
  have i: "identify ?env initial_values world0 = (None, ?v1, ?w1)"
    by (simp add: identify_def getAWSMDSClient_def getInstanceAZ_def getInstanceID_def
        getAWSEC2Client_def computeRegionFromAZ_def emit_def example_env_def world0_def
        regex_eval)
  have "\<forall>w. snd (fst (getBaseFromInputTag ?env (flag_input_tag ctx) (InstanceID ?v1) w)) \<noteq> None"
    by (simp add: getBaseFromInputTag_def example_env_def all_tags_def)
  then have "fst (fetchBase n ?env (initial_params ctx) ?v1 ?w1) = Some Retrying"
    by (intro fetchBase_retries_for_ever
          [where tag = "flag_input_tag ctx" and iid = "InstanceID ?v1"])
       (simp_all add: initial_params_def)
  then obtain p2 v2 w2 where "fetchBase n ?env (initial_params ctx) ?v1 ?w1 = (Some Retrying, p2, v2, w2)"
    by (metis fst_conv prod_cases4)
  then have "computation n ?env ctx world0 = (Some Retrying, p2, v2, w2)"
    unfolding computation_def i by simp
  then show ?thesis
    unfolding run_def by (simp add: example_env_def)
qed

subsection \<open>Reads come before writes\<close>




















end
